theory Spec2Isabelle
  imports Complex_Main
begin

section \<open>Python values shared by all functions\<close>

text \<open>The exceptions the functions of \<^verbatim>\<open>utilities.py\<close> can raise.\<close>

datatype error =
  ValueError | KeyError | IndexError | ZeroDivisionError | AxisError | OverflowError | TypeError

text \<open>\<^verbatim>\<open>range(n)\<close>: the integers \<open>0, ..., n - 1\<close>, empty when \<open>n \<le> 0\<close>.\<close>

definition range_py :: "int \<Rightarrow> int list" where
  "range_py n = map int [0..<nat n]"

section \<open>Floating-point numbers\<close>

text \<open>An IEEE 754 binary64 value: a finite number, an infinity or NaN. The sign
  of zero is not distinguished.\<close>

datatype double = Fin real | PInf | NInf | NaN

text \<open>\<open>2\<^sup>e\<close> for an integer exponent.\<close>

definition pow2 :: "int \<Rightarrow> real" where
  "pow2 e = (if 0 \<le> e then 2 ^ nat e else 1 / 2 ^ nat (- e))"

text \<open>The exponent of the binade of \<open>x\<close>, at least that of the subnormal numbers, and
  the distance between neighbouring doubles there.\<close>

definition expo :: "real \<Rightarrow> int" where
  "expo x = (if x = 0 then - 1022 else max \<lfloor>log 2 \<bar>x\<bar>\<rfloor> (- 1022))"

definition ulp :: "real \<Rightarrow> real" where
  "ulp x = pow2 (expo x - 52)"

text \<open>Rounding to the nearest integer, ties to the even one.\<close>

definition round_even :: "real \<Rightarrow> int" where
  "round_even r =
     (let f = \<lfloor>r\<rfloor>; d = r - of_int f
      in if d < 1 / 2 then f else if 1 / 2 < d then f + 1 else if even f then f else f + 1)"

text \<open>Rounding a real result to a double, round-to-nearest-even with overflow to an
  infinity: every arithmetic operation yields the exact result rounded this way.\<close>

definition fl :: "real \<Rightarrow> double" where
  "fl x =
     (let y = ulp x * of_int (round_even (x / ulp x))
      in if pow2 1024 \<le> \<bar>y\<bar> then (if 0 < x then PInf else NInf) else Fin y)"

text \<open>The arithmetic of doubles. Division is NumPy's, where a zero divisor gives an
  infinity or NaN; Python's own \<^verbatim>\<open>/\<close> raises instead, which is written out where it
  is used.\<close>

fun fneg :: "double \<Rightarrow> double" where
  "fneg (Fin a) = Fin (- a)"
| "fneg PInf = NInf"
| "fneg NInf = PInf"
| "fneg NaN = NaN"

fun fadd :: "double \<Rightarrow> double \<Rightarrow> double" where
  "fadd (Fin a) (Fin b) = fl (a + b)"
| "fadd NaN y = NaN"
| "fadd x NaN = NaN"
| "fadd PInf NInf = NaN"
| "fadd NInf PInf = NaN"
| "fadd PInf y = PInf"
| "fadd NInf y = NInf"
| "fadd x PInf = PInf"
| "fadd x NInf = NInf"

definition fsub :: "double \<Rightarrow> double \<Rightarrow> double" where
  "fsub x y = fadd x (fneg y)"

definition inf_sign :: "bool \<Rightarrow> double" where
  "inf_sign pos = (if pos then PInf else NInf)"

fun fmul :: "double \<Rightarrow> double \<Rightarrow> double" where
  "fmul (Fin a) (Fin b) = fl (a * b)"
| "fmul NaN y = NaN"
| "fmul x NaN = NaN"
| "fmul (Fin a) PInf = (if a = 0 then NaN else inf_sign (0 < a))"
| "fmul (Fin a) NInf = (if a = 0 then NaN else inf_sign (a < 0))"
| "fmul PInf (Fin b) = (if b = 0 then NaN else inf_sign (0 < b))"
| "fmul NInf (Fin b) = (if b = 0 then NaN else inf_sign (b < 0))"
| "fmul PInf PInf = PInf"
| "fmul PInf NInf = NInf"
| "fmul NInf PInf = NInf"
| "fmul NInf NInf = PInf"

fun fdiv :: "double \<Rightarrow> double \<Rightarrow> double" where
  "fdiv (Fin a) (Fin b) =
     (if b = 0 then (if a = 0 then NaN else inf_sign (0 < a)) else fl (a / b))"
| "fdiv NaN y = NaN"
| "fdiv x NaN = NaN"
| "fdiv (Fin a) PInf = Fin 0"
| "fdiv (Fin a) NInf = Fin 0"
| "fdiv PInf (Fin b) = inf_sign (0 \<le> b)"
| "fdiv NInf (Fin b) = inf_sign (b < 0)"
| "fdiv PInf y = NaN"
| "fdiv NInf y = NaN"

fun fsqrt :: "double \<Rightarrow> double" where
  "fsqrt (Fin a) = (if a < 0 then NaN else fl (sqrt a))"
| "fsqrt PInf = PInf"
| "fsqrt NInf = NaN"
| "fsqrt NaN = NaN"

text \<open>Comparisons: every comparison with NaN is false.\<close>

fun flt :: "double \<Rightarrow> double \<Rightarrow> bool" where
  "flt (Fin a) (Fin b) = (a < b)"
| "flt NaN y = False"
| "flt x NaN = False"
| "flt PInf y = False"
| "flt x NInf = False"
| "flt x PInf = True"
| "flt NInf y = True"

definition fle :: "double \<Rightarrow> double \<Rightarrow> bool" where
  "fle x y \<longleftrightarrow> flt x y \<or> (x = y \<and> x \<noteq> NaN)"

text \<open>The conversion of a Python \<^verbatim>\<open>int\<close> to a float is correctly rounded and raises
  \<^verbatim>\<open>OverflowError\<close> when the integer is too large.\<close>

definition float_of_int :: "int \<Rightarrow> error + double" where
  "float_of_int n = (case fl (of_int n) of Fin a \<Rightarrow> Inr (Fin a) | _ \<Rightarrow> Inl OverflowError)"

text \<open>A double as an input: a finite value is one that rounding leaves unchanged.\<close>

fun is_double :: "double \<Rightarrow> bool" where
  "is_double (Fin a) = (fl a = Fin a)"
| "is_double x = True"

fun is_nan :: "double \<Rightarrow> bool" where
  "is_nan NaN = True"
| "is_nan x = False"


text \<open>\<^verbatim>\<open>int(x)\<close> of a float truncates towards zero; NaN raises \<^verbatim>\<open>ValueError\<close> and
  an infinity \<^verbatim>\<open>OverflowError\<close>.\<close>

fun py_int :: "double \<Rightarrow> error + int" where
  "py_int (Fin a) = Inr (if 0 \<le> a then \<lfloor>a\<rfloor> else \<lceil>a\<rceil>)"
| "py_int NaN = Inl ValueError"
| "py_int x = Inl OverflowError"

text \<open>\<^verbatim>\<open>np.sqrt\<close> of a Python \<^verbatim>\<open>int\<close>: the int is converted to a 64-bit integer
  and then, rounded, to a double, whose square root is taken and rounded; an int that
  fits no 64-bit integer type becomes an object, for which \<^verbatim>\<open>np.sqrt\<close> raises
  \<^verbatim>\<open>TypeError\<close>.\<close>

definition np_sqrt :: "int \<Rightarrow> error + double" where
  "np_sqrt n =
     (if n < - (2 ^ 63) \<or> 2 ^ 64 \<le> n then Inl TypeError
      else Inr (fsqrt (fl (of_int n))))"

section \<open>GridIndexer\<close>

text \<open>\<^verbatim>\<open>itertools.product(range(n_rows), range(n_cols))\<close>: the rightmost range
  advances fastest.\<close>

definition grid_iter :: "int \<Rightarrow> int \<Rightarrow> (int \<times> int) list" where
  "grid_iter n_rows n_cols = List.product (range_py n_rows) (range_py n_cols)"

text \<open>\<^verbatim>\<open>np.array(list(grid_iter(n_rows, n_cols)))\<close>: every tuple becomes a row of
  two entries.\<close>

definition grid :: "int \<Rightarrow> int \<Rightarrow> int list list" where
  "grid n_rows n_cols = map (\<lambda>(r, c). [r, c]) (grid_iter n_rows n_cols)"

section \<open>ScheduleGenerator\<close>

text \<open>The argument \<^verbatim>\<open>step\<close> is annotated \<^verbatim>\<open>float\<close> and tested with
  \<^verbatim>\<open>isinstance(step, int)\<close>: it is a Python number, an \<^verbatim>\<open>int\<close> or a
  \<^verbatim>\<open>float\<close>.\<close>

datatype pynum = PyInt int | PyFloat double

text \<open>\<^verbatim>\<open>step < 1\<close> and \<^verbatim>\<open>step == 1\<close>.\<close>

fun lt_one :: "pynum \<Rightarrow> bool" where
  "lt_one (PyInt i) = (i < 1)"
| "lt_one (PyFloat d) = flt d (Fin 1)"

fun eq_one :: "pynum \<Rightarrow> bool" where
  "eq_one (PyInt i) = (i = 1)"
| "eq_one (PyFloat d) = (d = Fin 1)"

fun isinstance_int :: "pynum \<Rightarrow> bool" where
  "isinstance_int (PyInt i) = True"
| "isinstance_int (PyFloat d) = False"

text \<open>\<^verbatim>\<open>range(step)\<close> and \<^verbatim>\<open>step - 1\<close> are only reached when \<^verbatim>\<open>step\<close> is an
  int.\<close>

fun range_len :: "pynum \<Rightarrow> nat" where
  "range_len (PyInt i) = nat i"
| "range_len (PyFloat d) = 0"

fun minus_one :: "pynum \<Rightarrow> int" where
  "minus_one (PyInt i) = i - 1"
| "minus_one (PyFloat d) = 0"

text \<open>Both schedule functions contain \<^verbatim>\<open>yield\<close>, so they are generator functions:
  a call runs none of the body and returns a generator object; the body runs, up to
  the next \<^verbatim>\<open>yield\<close>, each time the object is advanced. The object holds the
  arguments and the point at which the body is suspended. The collaborators
  \<^verbatim>\<open>np.log\<close> and \<^verbatim>\<open>np.exp\<close> of the exponential schedule are parameters.\<close>

datatype kind = Linear | Expo "double \<Rightarrow> double" "double \<Rightarrow> double"

datatype pc = Created | After_single | In_loop nat | Finished

record generator =
  g_kind :: kind
  g_start :: double
  g_step :: pynum
  g_stop :: double
  g_pc :: pc

definition decrease_linear :: "double \<Rightarrow> pynum \<Rightarrow> double \<Rightarrow> error + generator" where
  "decrease_linear start step stop =
     Inr \<lparr>g_kind = Linear, g_start = start, g_step = step, g_stop = stop, g_pc = Created\<rparr>"

definition decrease_expo ::
  "(double \<Rightarrow> double) \<Rightarrow> (double \<Rightarrow> double) \<Rightarrow> double \<Rightarrow> pynum \<Rightarrow> double
     \<Rightarrow> error + generator" where
  "decrease_expo np_log np_exp start step stop =
     Inr \<lparr>g_kind = Expo np_log np_exp, g_start = start, g_step = step, g_stop = stop,
          g_pc = Created\<rparr>"

text \<open>What advancing a generator gives: a yielded value, the end of the iteration, or
  an exception raised by the body.\<close>

datatype 'a outcome = Yield 'a | StopIteration | Raise error

text \<open>The value of \<^verbatim>\<open>coef\<close>. The divisor \<^verbatim>\<open>step - 1\<close> is an int and is converted
  to a float. In \<^verbatim>\<open>decrease_expo\<close> the quotient \<^verbatim>\<open>stop / start\<close> of two Python
  floats raises \<^verbatim>\<open>ZeroDivisionError\<close> when \<^verbatim>\<open>start\<close> is zero.\<close>

definition coef :: "generator \<Rightarrow> error + double" where
  "coef g =
     (case g_kind g of
        Linear \<Rightarrow>
          (case float_of_int (minus_one (g_step g)) of
             Inl e \<Rightarrow> Inl e
           | Inr d \<Rightarrow> Inr (fdiv (fsub (g_stop g) (g_start g)) d))
      | Expo np_log np_exp \<Rightarrow>
          (if g_start g = Fin 0 then Inl ZeroDivisionError
           else (case float_of_int (minus_one (g_step g)) of
                   Inl e \<Rightarrow> Inl e
                 | Inr d \<Rightarrow> Inr (fdiv (np_log (fdiv (g_stop g) (g_start g))) d))))"

text \<open>The expression after \<^verbatim>\<open>yield\<close> in the loop body; the int \<^verbatim>\<open>stp\<close> is
  converted to a float.\<close>

definition loop_value :: "generator \<Rightarrow> double \<Rightarrow> nat \<Rightarrow> error + double" where
  "loop_value g c stp =
     (case float_of_int (int stp) of
        Inl e \<Rightarrow> Inl e
      | Inr k \<Rightarrow>
          (case g_kind g of
             Linear \<Rightarrow> Inr (fadd (fmul c k) (g_start g))
           | Expo np_log np_exp \<Rightarrow> Inr (fmul (g_start g) (np_exp (fmul c k)))))"

text \<open>One iteration of \<^verbatim>\<open>for stp in range(step)\<close>, entered with the next value
  \<open>stp\<close> of the range and the value \<open>c\<close> of \<^verbatim>\<open>coef\<close>.\<close>

definition loop_step :: "generator \<Rightarrow> double \<Rightarrow> nat \<Rightarrow> double outcome \<times> generator" where
  "loop_step g c stp =
     (if stp < range_len (g_step g) then
        (case loop_value g c stp of
           Inl e \<Rightarrow> (Raise e, g\<lparr>g_pc := Finished\<rparr>)
         | Inr v \<Rightarrow> (Yield v, g\<lparr>g_pc := In_loop (Suc stp)\<rparr>))
      else (StopIteration, g\<lparr>g_pc := Finished\<rparr>))"

text \<open>\<^verbatim>\<open>next(gen)\<close>: run the body from where it is suspended to the next
  \<^verbatim>\<open>yield\<close>, to its end or to a \<^verbatim>\<open>raise\<close>. The validation of \<^verbatim>\<open>step\<close> is
  the first statement of the body. Inside the loop \<^verbatim>\<open>coef\<close> has been computed
  without an exception, and its value is the same on every iteration.\<close>

definition next_gen :: "generator \<Rightarrow> double outcome \<times> generator" where
  "next_gen g =
     (case g_pc g of
        Created \<Rightarrow>
          (if lt_one (g_step g) \<or> \<not> isinstance_int (g_step g)
           then (Raise ValueError, g\<lparr>g_pc := Finished\<rparr>)
           else if eq_one (g_step g)
           then (Yield (g_start g), g\<lparr>g_pc := After_single\<rparr>)
           else (case coef g of
                   Inl e \<Rightarrow> (Raise e, g\<lparr>g_pc := Finished\<rparr>)
                 | Inr c \<Rightarrow> loop_step g c 0))
      | After_single \<Rightarrow> (StopIteration, g\<lparr>g_pc := Finished\<rparr>)
      | In_loop stp \<Rightarrow>
          (case coef g of
             Inl e \<Rightarrow> (Raise e, g\<lparr>g_pc := Finished\<rparr>)
           | Inr c \<Rightarrow> loop_step g c stp)
      | Finished \<Rightarrow> (StopIteration, g))"

text \<open>The number of values a generator can still yield, plus one.\<close>

definition remaining :: "generator \<Rightarrow> nat" where
  "remaining g =
     (case g_pc g of
        Created \<Rightarrow> range_len (g_step g) + 2
      | After_single \<Rightarrow> 1
      | In_loop stp \<Rightarrow> range_len (g_step g) - stp + 1
      | Finished \<Rightarrow> 0)"

lemma next_gen_remaining:
  "next_gen g = (Yield v, g') \<Longrightarrow> remaining g' < remaining g"
  by (cases "g_pc g"; cases "g_step g")
     (auto simp: next_gen_def loop_step_def remaining_def
           split: if_splits sum.splits)

text \<open>\<^verbatim>\<open>list(gen)\<close>: advance the generator until it ends or raises.\<close>

function drain :: "generator \<Rightarrow> error + double list" where
  "drain g =
     (case next_gen g of
        (Yield v, g') \<Rightarrow>
          (case drain g' of Inl e \<Rightarrow> Inl e | Inr vs \<Rightarrow> Inr (v # vs))
      | (StopIteration, g') \<Rightarrow> Inr []
      | (Raise e, g') \<Rightarrow> Inl e)"
  by pat_completeness auto
termination
  by (relation "measure remaining") (auto simp: next_gen_remaining [OF sym])

section \<open>Arrays and the random source\<close>

text \<open>A NumPy array of doubles: its shape and its element at each multi-index.\<close>

record ndarray =
  shape :: "nat list"
  elem :: "nat list \<Rightarrow> double"

text \<open>The arrays returned by a sampler are lists of rows. The initializers copy
  their entries without computing on them, and the entries are read as the real
  numbers they denote.\<close>

type_synonym matrix = "real list list"

text \<open>The collaborators \<^verbatim>\<open>np.random.randint\<close> and
  \<^verbatim>\<open>stats.dirichlet(alpha).rvs(size)\<close> draw from the process-wide random state,
  which is passed explicitly: each takes the state and returns the draw with the new
  state. \<open>randint R low high (r, c)\<close> is a draw of shape \<open>(r, c)\<close>.\<close>

record 'g random =
  randint :: "int \<Rightarrow> int \<Rightarrow> nat \<times> nat \<Rightarrow> 'g \<Rightarrow> int list list \<times> 'g"
  dirichlet_rvs :: "real list \<Rightarrow> nat \<Rightarrow> 'g \<Rightarrow> matrix \<times> 'g"

section \<open>WeightInitializer\<close>

type_synonym som_dims = "int \<times> int \<times> int"

text \<open>The comprehension \<^verbatim>\<open>[stats.dirichlet(a).rvs(size=n_units) for a in alpha]\<close>.
  A negative \<^verbatim>\<open>size\<close> raises \<^verbatim>\<open>ValueError\<close>.\<close>

fun rvs_all :: "'g random \<Rightarrow> int list list \<Rightarrow> int \<Rightarrow> 'g \<Rightarrow> error + matrix list \<times> 'g" where
  "rvs_all R [] n_units g = Inr ([], g)"
| "rvs_all R (a # alpha) n_units g =
     (if n_units < 0 then Inl ValueError
      else (case dirichlet_rvs R (map real_of_int a) (nat n_units) g of
              (block, g') \<Rightarrow>
                (case rvs_all R alpha n_units g' of
                   Inl e \<Rightarrow> Inl e
                 | Inr (blocks, g'') \<Rightarrow> Inr (block # blocks, g''))))"

text \<open>\<^verbatim>\<open>np.hstack\<close> of two-dimensional arrays: an empty list of arrays and arrays
  with different numbers of rows raise \<^verbatim>\<open>ValueError\<close>; otherwise row \<open>u\<close> of the
  result is the concatenation of the rows \<open>u\<close> of the arrays.\<close>

definition hstack :: "matrix list \<Rightarrow> error + matrix" where
  "hstack blocks =
     (case blocks of
        [] \<Rightarrow> Inl ValueError
      | b # bs \<Rightarrow>
          (if \<forall>b' \<in> set bs. length b' = length b
           then Inr (map (\<lambda>u. concat (map (\<lambda>b'. b' ! u) blocks)) [0..<length b])
           else Inl ValueError))"

text \<open>\<^verbatim>\<open>n_states = np.sqrt(n_feats)\<close> is a double. The test
  \<^verbatim>\<open>bool(n_states - int(n_states))\<close> first truncates it, which raises
  \<^verbatim>\<open>ValueError\<close> on the NaN that a negative \<^verbatim>\<open>n_feats\<close> gives, then subtracts
  in doubles and compares with zero. The argument \<^verbatim>\<open>data\<close> is accepted and not
  used.\<close>

definition sample_stm ::
  "'g random \<Rightarrow> som_dims \<Rightarrow> ndarray option \<Rightarrow> 'g \<Rightarrow> error + matrix \<times> 'g" where
  "sample_stm R dims data g =
     (case dims of (n_rows, n_cols, n_feats) \<Rightarrow>
        (case np_sqrt n_feats of
           Inl e \<Rightarrow> Inl e
         | Inr n_states \<Rightarrow>
             (case py_int n_states of
                Inl e \<Rightarrow> Inl e
              | Inr i \<Rightarrow>
                  if fsub n_states (fl (of_int i)) \<noteq> Fin 0 then Inl ValueError
                  else
                    let n_states = nat i;
                        n_units = n_rows * n_cols
                    in (case randint R 1 10 (n_states, n_states) g of
                          (alpha, g1) \<Rightarrow>
                            (case rvs_all R alpha n_units g1 of
                               Inl e \<Rightarrow> Inl e
                             | Inr (blocks, g2) \<Rightarrow>
                                 (case hstack blocks of
                                    Inl e \<Rightarrow> Inl e
                                  | Inr st_matrix \<Rightarrow> Inr (st_matrix, g2)))))))"

text \<open>\<^verbatim>\<open>np.ones\<close> of a negative length, a Dirichlet distribution with no
  parameter and a negative \<^verbatim>\<open>size\<close> raise \<^verbatim>\<open>ValueError\<close>. The argument
  \<^verbatim>\<open>data\<close> is accepted and not used.\<close>

definition sample_hist ::
  "'g random \<Rightarrow> som_dims \<Rightarrow> ndarray option \<Rightarrow> 'g \<Rightarrow> error + matrix \<times> 'g" where
  "sample_hist R dims data g =
     (case dims of (n_rows, n_cols, n_feats) \<Rightarrow>
        if n_feats \<le> 0 \<or> n_rows * n_cols < 0 then Inl ValueError
        else Inr (dirichlet_rvs R (replicate (nat n_feats) 1) (nat (n_rows * n_cols)) g))"

text \<open>A random source for running the initializers on concrete inputs: the state is the
  list of integers still to be drawn; \<open>randint\<close> consumes \<open>r * c\<close> of them, brought
  into \<open>[low, high)\<close>, and the Dirichlet sampler returns the mean of the distribution
  for every sample.\<close>

definition chop :: "nat \<Rightarrow> nat \<Rightarrow> 'a list \<Rightarrow> 'a list list" where
  "chop r c xs = map (\<lambda>i. take c (drop (i * c) xs)) [0..<r]"

definition randint_seq :: "int \<Rightarrow> int \<Rightarrow> nat \<times> nat \<Rightarrow> int list \<Rightarrow> int list list \<times> int list" where
  "randint_seq low high shp g =
     (case shp of (r, c) \<Rightarrow>
        (chop r c (map (\<lambda>x. low + x mod (high - low)) (take (r * c) (g @ replicate (r * c) 0))),
         drop (r * c) g))"

definition dirichlet_mean :: "real list \<Rightarrow> nat \<Rightarrow> int list \<Rightarrow> matrix \<times> int list" where
  "dirichlet_mean alpha n g = (replicate n (map (\<lambda>a. a / sum_list alpha) alpha), g)"

definition seq_random :: "int list random" where
  "seq_random = \<lparr>randint = randint_seq, dirichlet_rvs = dirichlet_mean\<rparr>"



text \<open>A perfect square, decided by a bounded search.\<close>

definition perfect_square :: "int \<Rightarrow> bool" where
  "perfect_square n \<longleftrightarrow> (\<exists>k \<in> {0..n}. k * k = n)"

section \<open>Scaler\<close>

text \<open>A one-dimensional array from the list of its elements, and back.\<close>

definition array1 :: "double list \<Rightarrow> ndarray" where
  "array1 xs = \<lparr>shape = [length xs], elem = (\<lambda>idx. xs ! hd idx)\<rparr>"

definition to_list1 :: "ndarray \<Rightarrow> double list" where
  "to_list1 a = map (\<lambda>i. elem a [i]) [0..<hd (shape a)]"

text \<open>A multi-index of an array: one position per dimension, each within the shape.\<close>

definition valid_index :: "ndarray \<Rightarrow> nat list \<Rightarrow> bool" where
  "valid_index a idx \<longleftrightarrow> list_all2 (\<lambda>i n. i < n) idx (shape a)"

text \<open>The axis of a reduction may be given from the end; outside \<open>[-ndim, ndim)\<close> NumPy
  raises \<^verbatim>\<open>AxisError\<close>. A zero-dimensional array has no axis, but a reduction of it
  accepts the axes \<open>0\<close> and \<open>-1\<close> and then reduces nothing.\<close>

definition reduction_axis :: "int \<Rightarrow> nat \<Rightarrow> error + nat option" where
  "reduction_axis axis ndim =
     (if ndim = 0 then (if axis = 0 \<or> axis = - 1 then Inr None else Inl AxisError)
      else if - int ndim \<le> axis \<and> axis < int ndim
      then Inr (Some (nat (if axis < 0 then axis + int ndim else axis)))
      else Inl AxisError)"

text \<open>The one-dimensional slice of an array along an axis through a multi-index.\<close>

definition slice_along :: "ndarray \<Rightarrow> nat \<Rightarrow> nat list \<Rightarrow> double list" where
  "slice_along a ax idx = map (\<lambda>j. elem a (idx[ax := j])) [0..<shape a ! ax]"

text \<open>NumPy's \<^verbatim>\<open>maximum\<close> and \<^verbatim>\<open>minimum\<close> of two doubles,
  \<^verbatim>\<open>(x >= y || isnan(x)) ? x : y\<close> and \<^verbatim>\<open>(x <= y || isnan(x)) ? x : y\<close>: a NaN
  operand is returned.\<close>

definition np_maximum :: "double \<Rightarrow> double \<Rightarrow> double" where
  "np_maximum x y = (if fle y x \<or> is_nan x then x else y)"

definition np_minimum :: "double \<Rightarrow> double \<Rightarrow> double" where
  "np_minimum x y = (if fle x y \<or> is_nan x then x else y)"

text \<open>A reduction starts with the first element and combines it with the others in
  order.\<close>

definition reduce_list :: "(double \<Rightarrow> double \<Rightarrow> double) \<Rightarrow> double list \<Rightarrow> double" where
  "reduce_list f xs = fold (\<lambda>x acc. f acc x) (tl xs) (hd xs)"

text \<open>\<^verbatim>\<open>arr.max(axis=axis, keepdims=True)\<close> and \<^verbatim>\<open>arr.min(axis=axis, keepdims=True)\<close>:
  the reduced axis is kept with length one; reducing an axis of length zero raises
  \<^verbatim>\<open>ValueError\<close>.\<close>

fun reduce_keepdims ::
  "(double \<Rightarrow> double \<Rightarrow> double) \<Rightarrow> ndarray \<Rightarrow> nat option \<Rightarrow> error + ndarray" where
  "reduce_keepdims f a None = Inr a"
| "reduce_keepdims f a (Some ax) =
     (if shape a ! ax = 0 then Inl ValueError
      else Inr \<lparr>shape = (shape a)[ax := 1],
                elem = (\<lambda>idx. reduce_list f (slice_along a ax idx))\<rparr>)"

text \<open>An elementwise operation on two arrays with broadcasting: a dimension of length
  one is stretched to the length of the other array's dimension. In \<open>scale\<close> the
  shapes always fit, the second array being a reduction of the first with the axis
  kept.\<close>

definition bcast_index :: "nat list \<Rightarrow> nat list \<Rightarrow> nat list" where
  "bcast_index shp idx = map2 (\<lambda>n i. if n = 1 then 0 else i) shp idx"

definition broadcast2 ::
  "(double \<Rightarrow> double \<Rightarrow> double) \<Rightarrow> ndarray \<Rightarrow> ndarray \<Rightarrow> ndarray" where
  "broadcast2 f a b =
     \<lparr>shape = map2 (\<lambda>n m. if n = 1 then m else n) (shape a) (shape b),
      elem = (\<lambda>idx. f (elem a (bcast_index (shape a) idx))
                       (elem b (bcast_index (shape b) idx)))\<rparr>"

definition map_array :: "(double \<Rightarrow> double) \<Rightarrow> ndarray \<Rightarrow> ndarray" where
  "map_array f a = \<lparr>shape = shape a, elem = (\<lambda>idx. f (elem a idx))\<rparr>"

text \<open>\<^verbatim>\<open>scale\<close>. The operations on arrays are NumPy's: a division by zero gives an
  infinity or NaN and does not raise. \<^verbatim>\<open>new_min\<close> and \<^verbatim>\<open>new_max\<close> are Python
  ints; their difference is exact, and an int that meets an array of doubles is
  converted to a double.\<close>

definition scale :: "ndarray \<Rightarrow> int \<Rightarrow> int \<Rightarrow> int \<Rightarrow> error + ndarray" where
  "scale arr new_min new_max axis =
     (case reduction_axis axis (length (shape arr)) of
        Inl e \<Rightarrow> Inl e
      | Inr ax \<Rightarrow>
          (case reduce_keepdims np_maximum arr ax of
             Inl e \<Rightarrow> Inl e
           | Inr xmax \<Rightarrow>
               (case reduce_keepdims np_minimum arr ax of
                  Inl e \<Rightarrow> Inl e
                | Inr xmin \<Rightarrow>
                    let fact = broadcast2 fdiv (broadcast2 fsub arr xmin)
                                 (broadcast2 fsub xmax xmin)
                    in (case float_of_int (new_max - new_min) of
                          Inl e \<Rightarrow> Inl e
                        | Inr d \<Rightarrow>
                            (case float_of_int new_min of
                               Inl e \<Rightarrow> Inl e
                             | Inr m \<Rightarrow>
                                 Inr (map_array (\<lambda>x. fadd (fmul x d) m) fact))))))"

section \<open>Distributor\<close>

text \<open>The dictionary \<^verbatim>\<open>unit_matches\<close> keeps its keys in insertion order; it is an
  association list from unit index to the list of data indices.\<close>

type_synonym unit_matches = "(int \<times> nat list) list"

text \<open>\<^verbatim>\<open>unit_matches[bmu].append(data_idx)\<close>: a key that is absent raises
  \<^verbatim>\<open>KeyError\<close>.\<close>

fun dict_append :: "unit_matches \<Rightarrow> int \<Rightarrow> nat \<Rightarrow> error + unit_matches" where
  "dict_append [] bmu data_idx = Inl KeyError"
| "dict_append ((k, vs) # rest) bmu data_idx =
     (if k = bmu then Inr ((k, vs @ [data_idx]) # rest)
      else (case dict_append rest bmu data_idx of
              Inl e \<Rightarrow> Inl e
            | Inr rest' \<Rightarrow> Inr ((k, vs) # rest')))"

text \<open>The loop \<^verbatim>\<open>for data_idx, bmu in enumerate(bmu_idx)\<close>.\<close>

fun distribute_loop :: "unit_matches \<Rightarrow> (nat \<times> int) list \<Rightarrow> error + unit_matches" where
  "distribute_loop um [] = Inr um"
| "distribute_loop um ((data_idx, bmu) # rest) =
     (case dict_append um bmu data_idx of
        Inl e \<Rightarrow> Inl e
      | Inr um' \<Rightarrow> distribute_loop um' rest)"

definition distribute :: "int list \<Rightarrow> int \<Rightarrow> error + unit_matches" where
  "distribute bmu_idx n_units =
     distribute_loop (map (\<lambda>i. (i, [])) (range_py n_units)) (enumerate 0 bmu_idx)"

text \<open>The data indices, in order, of the pairs of an enumeration whose unit is \<open>k\<close>.\<close>

definition hits :: "(nat \<times> int) list \<Rightarrow> int \<Rightarrow> nat list" where
  "hits ps k = map fst (filter (\<lambda>p. snd p = k) ps)"

section \<open>Properties of the floating-point model\<close>

lemma pow2_powr: "pow2 e = 2 powr (of_int e)"
proof (cases "0 \<le> e")
  case True
  then have "2 powr (of_int e) = (2::real) powr (real (nat e))" by simp
  also have "\<dots> = 2 ^ nat e" by (simp add: powr_realpow)
  finally show ?thesis using True by (simp add: pow2_def)
next
  case False
  then have "2 powr (of_int e) = (2::real) powr (- real (nat (- e)))" by simp
  also have "\<dots> = 1 / 2 ^ nat (- e)" by (simp add: powr_minus powr_realpow divide_inverse)
  finally show ?thesis using False by (simp add: pow2_def)
qed

lemma pow2_pos [simp]: "0 < pow2 e"
  by (simp add: pow2_powr)

lemma pow2_not_le [simp]: "\<not> pow2 e \<le> 0"
  using pow2_pos [of e] by (simp only: not_le)

lemma pow2_nonneg [simp]: "0 \<le> pow2 e"
  using pow2_pos [of e] by (rule less_imp_le)

lemma pow2_neq0 [simp]: "pow2 e \<noteq> 0"
  using pow2_pos [of e] by (rule less_imp_neq [symmetric])


lemma pow2_mono: "a \<le> b \<Longrightarrow> pow2 a \<le> pow2 b"
  by (simp add: pow2_powr)

lemma floor_log2_eq:
  assumes "pow2 k \<le> x" and "x < pow2 (k + 1)"
  shows "\<lfloor>log 2 x\<rfloor> = k"
proof -
  have pos: "0 < x" using assms(1) pow2_pos [of k] by linarith
  have "of_int k \<le> log 2 x"
    using assms(1) pos by (simp add: pow2_powr le_log_iff)
  moreover have "log 2 x < of_int k + 1"
    using assms(2) pos by (simp add: pow2_powr log_less_iff)
  ultimately show ?thesis by linarith
qed

lemma expo_eq:
  assumes "pow2 k \<le> \<bar>x\<bar>" and "\<bar>x\<bar> < pow2 (k + 1)"
  shows "expo x = max k (- 1022)"
proof -
  have "x \<noteq> 0" using assms(1) by auto
  then show ?thesis using floor_log2_eq [OF assms] by (simp add: expo_def)
qed

lemma fl_eval:
  assumes "pow2 k \<le> \<bar>x\<bar>" and "\<bar>x\<bar> < pow2 (k + 1)"
  shows "fl x =
     (let u = pow2 (max k (- 1022) - 52); y = u * of_int (round_even (x / u))
      in if pow2 1024 \<le> \<bar>y\<bar> then (if 0 < x then PInf else NInf) else Fin y)"
  by (simp add: fl_def ulp_def expo_eq [OF assms] Let_def)

lemma fl_zero [simp]: "fl 0 = Fin 0"
  by (simp add: fl_def round_even_def)

lemma round_even_of_int [simp]: "round_even (of_int m) = m"
  by (simp add: round_even_def)


lemma fl_cases:
  obtains (fin) m where "fl x = Fin (ulp x * of_int m)" and "m = round_even (x / ulp x)"
  | (inf) "fl x = PInf \<or> fl x = NInf"
  unfolding fl_def Let_def by (cases "pow2 1024 \<le> \<bar>ulp x * of_int (round_even (x / ulp x))\<bar>") auto

lemma ulp_pos [simp]: "0 < ulp x"
  by (simp add: ulp_def)

lemma ulp_nonneg [simp]: "0 \<le> ulp x"
  by (simp add: ulp_def)

lemma ulp_neq0 [simp]: "ulp x \<noteq> 0"
  by (simp add: ulp_def)


lemma fl_exact:
  assumes "x = ulp x * of_int m" and "\<bar>x\<bar> < pow2 1024"
  shows "fl x = Fin x"
proof -
  have "x / ulp x = of_int m"
    using assms(1) by (metis nonzero_mult_div_cancel_left ulp_pos less_numeral_extra(3))
  then have "ulp x * of_int (round_even (x / ulp x)) = x"
    using assms(1) by simp
  then show ?thesis using assms(2) by (simp add: fl_def Let_def)
qed

lemma expo_le:
  assumes "\<bar>x\<bar> < pow2 (k + 1)" and "- 1022 \<le> k"
  shows "expo x \<le> k"
proof (cases "x = 0")
  case True
  then show ?thesis using assms(2) by (simp add: expo_def)
next
  case False
  then have pos: "0 < \<bar>x\<bar>" by simp
  have "log 2 \<bar>x\<bar> < of_int k + 1"
    using assms(1) pos by (simp add: pow2_powr log_less_iff)
  then have "\<lfloor>log 2 \<bar>x\<bar>\<rfloor> \<le> k" by linarith
  then show ?thesis using False assms(2) by (simp add: expo_def)
qed

lemma fl_of_int:
  assumes "\<bar>n\<bar> < 2 ^ 53"
  shows "fl (of_int n) = Fin (of_int n)"
proof -
  let ?x = "real_of_int n"
  have b: "\<bar>?x\<bar> < pow2 (52 + 1)"
  proof -
    have "real_of_int \<bar>n\<bar> < real_of_int (2 ^ 53)"
      using assms by (simp only: of_int_less_iff)
    then show ?thesis by (simp add: pow2_def)
  qed
  have e: "expo ?x \<le> 52" by (rule expo_le [OF b]) simp
  define d where "d = nat (52 - expo ?x)"
  have u: "ulp ?x = 1 / 2 ^ d"
  proof (cases "expo ?x = 52")
    case True
    then show ?thesis by (simp add: ulp_def pow2_def d_def)
  next
    case False
    with e have "expo ?x - 52 < 0" by simp
    then show ?thesis by (simp add: ulp_def pow2_def d_def)
  qed
  have "?x = ulp ?x * of_int (n * 2 ^ d)"
    unfolding u by simp
  moreover have "\<bar>?x\<bar> < pow2 1024"
    using b pow2_mono [of "52 + 1" 1024] by simp
  ultimately show ?thesis by (rule fl_exact)
qed






section \<open>Properties of the grid\<close>

lemma length_range_py [simp]: "length (range_py n) = nat n"
  by (simp add: range_py_def)

lemma nth_range_py [simp]: "i < nat n \<Longrightarrow> range_py n ! i = int i"
  by (simp add: range_py_def)

lemma distinct_range_py [simp]: "distinct (range_py n)"
  by (simp add: range_py_def distinct_map inj_on_def)

lemma set_range_py: "set (range_py n) = {0..<n}"
proof -
  have "int ` {0..<nat n} = {0..<n}"
  proof (rule set_eqI)
    fix x :: int
    show "x \<in> int ` {0..<nat n} \<longleftrightarrow> x \<in> {0..<n}"
    proof
      assume "x \<in> int ` {0..<nat n}"
      then show "x \<in> {0..<n}" by auto
    next
      assume "x \<in> {0..<n}"
      then have "x = int (nat x)" "nat x \<in> {0..<nat n}" by auto
      then show "x \<in> int ` {0..<nat n}" by (rule image_eqI)
    qed
  qed
  then show ?thesis by (simp add: range_py_def)
qed

lemma length_grid: "length (grid n_rows n_cols) = nat n_rows * nat n_cols"
  by (simp add: grid_def grid_iter_def)

lemma nth_grid:
  assumes "i < nat n_rows * nat n_cols"
  shows "grid n_rows n_cols ! i = [int i div n_cols, int i mod n_cols]"
proof -
  have pos: "0 < nat n_cols"
    using assms by (cases "nat n_cols") auto
  have d: "i div nat n_cols < nat n_rows"
    using assms pos by (simp add: less_mult_imp_div_less)
  have m: "i mod nat n_cols < nat n_cols"
    using pos by simp
  have c: "int (nat n_cols) = n_cols"
    using pos by simp
  have "grid_iter n_rows n_cols ! i = (int (i div nat n_cols), int (i mod nat n_cols))"
    using assms d m by (simp add: grid_iter_def List.product_nth)
  moreover have "int (i div nat n_cols) = int i div n_cols"
    using c by (simp add: zdiv_int)
  moreover have "int (i mod nat n_cols) = int i mod n_cols"
    using c by (simp add: zmod_int)
  ultimately show ?thesis
    using assms by (simp add: grid_def grid_iter_def)
qed

lemma distinct_grid: "distinct (grid n_rows n_cols)"
proof -
  have "distinct (grid_iter n_rows n_cols)"
    by (simp add: grid_iter_def distinct_product)
  moreover have "inj (\<lambda>(r :: int, c :: int). [r, c])"
    by (auto simp: inj_on_def)
  ultimately show ?thesis
    by (simp add: grid_def distinct_map inj_on_subset [OF _ subset_UNIV])
qed

text \<open>C9: for \<open>n_rows, n_cols \<ge> 1\<close> the grid has \<open>n_rows * n_cols\<close> rows of two
  entries, the rows are pairwise distinct, the first is \<open>(0, 0)\<close>, the last is
  \<open>(n_rows - 1, n_cols - 1)\<close>, and the row at flat index \<open>i\<close> is
  \<open>(i // n_cols, i % n_cols)\<close>, which is row-major order.\<close>

theorem grid_row_major:
  assumes "1 \<le> n_rows" and "1 \<le> n_cols"
  shows "length (grid n_rows n_cols) = nat (n_rows * n_cols)
       \<and> (\<forall>row \<in> set (grid n_rows n_cols). length row = 2)
       \<and> distinct (grid n_rows n_cols)
       \<and> hd (grid n_rows n_cols) = [0, 0]
       \<and> last (grid n_rows n_cols) = [n_rows - 1, n_cols - 1]
       \<and> (\<forall>i < nat (n_rows * n_cols).
            grid n_rows n_cols ! i = [int i div n_cols, int i mod n_cols])"
proof -
  have len: "length (grid n_rows n_cols) = nat (n_rows * n_cols)"
    using assms by (simp add: length_grid nat_mult_distrib)
  have pos: "0 < nat (n_rows * n_cols)"
    using assms by simp
  have ne: "grid n_rows n_cols \<noteq> []"
    using len pos by auto
  have nth: "\<forall>i < nat (n_rows * n_cols).
      grid n_rows n_cols ! i = [int i div n_cols, int i mod n_cols]"
    using assms by (simp add: nth_grid nat_mult_distrib)
  have rows: "\<forall>row \<in> set (grid n_rows n_cols). length row = 2"
    by (auto simp: grid_def)
  have "hd (grid n_rows n_cols) = grid n_rows n_cols ! 0"
    using ne by (simp add: hd_conv_nth)
  then have first: "hd (grid n_rows n_cols) = [0, 0]"
    using nth pos by simp
  have lst: "last (grid n_rows n_cols) = grid n_rows n_cols ! (nat (n_rows * n_cols) - 1)"
    using ne len by (simp add: last_conv_nth)
  have "1 \<le> nat (n_rows * n_cols)"
    using pos by simp
  then have "int (nat (n_rows * n_cols) - 1) = int (nat (n_rows * n_cols)) - 1"
    by (simp only: of_nat_diff of_nat_1)
  then have idx: "int (nat (n_rows * n_cols) - 1) = (n_rows - 1) * n_cols + (n_cols - 1)"
    using pos by (simp add: algebra_simps)
  have "int (nat (n_rows * n_cols) - 1) div n_cols = n_rows - 1"
    using assms unfolding idx by simp
  moreover have "int (nat (n_rows * n_cols) - 1) mod n_cols = n_cols - 1"
  proof -
    have "(n_cols - 1) mod n_cols = n_cols - 1"
      by (rule mod_pos_pos_trivial) (use assms in auto)
    then show ?thesis
      unfolding idx mod_mult_self3 .
  qed
  ultimately have "last (grid n_rows n_cols) = [n_rows - 1, n_cols - 1]"
    using lst nth pos by simp
  with len rows first nth show ?thesis
    by (simp add: distinct_grid)
qed

theorem grid_row_major_witness:
  "(1::int) \<le> 2 \<and> (1::int) \<le> 3
   \<and> grid 2 3 = [[0, 0], [0, 1], [0, 2], [1, 0], [1, 1], [1, 2]]
   \<and> last (grid 2 3) = [2 - 1, 3 - 1]"
proof -
  have h: "(1::int) \<le> 2" "(1::int) \<le> 3"
    by simp_all
  have "last (grid 2 3) = [2 - 1, 3 - 1]"
    using grid_row_major [OF h] by blast
  moreover have "grid 2 3 = [[0, 0], [0, 1], [0, 2], [1, 0], [1, 1], [1, 2]]"
    by code_simp
  ultimately show ?thesis
    using h by simp
qed

section \<open>Properties of the distributor\<close>

lemma dict_append_ok:
  "bmu \<in> fst ` set um \<Longrightarrow>
   \<exists>um'. dict_append um bmu v = Inr um' \<and> map fst um' = map fst um
      \<and> map_of um' = (map_of um)(bmu \<mapsto> the (map_of um bmu) @ [v])"
proof (induction um)
  case Nil
  then show ?case by simp
next
  case (Cons p um)
  obtain k vs where p: "p = (k, vs)" by (cases p)
  show ?case
  proof (cases "k = bmu")
    case True
    then show ?thesis using p by auto
  next
    case False
    with Cons.prems p have "bmu \<in> fst ` set um" by auto
    from Cons.IH [OF this] obtain um' where
      "dict_append um bmu v = Inr um'" "map fst um' = map fst um"
      "map_of um' = (map_of um)(bmu \<mapsto> the (map_of um bmu) @ [v])" by blast
    then show ?thesis using p False by (auto simp: fun_eq_iff)
  qed
qed

lemma distribute_loop_ok:
  "snd ` set ps \<subseteq> fst ` set um \<Longrightarrow>
   \<exists>um'. distribute_loop um ps = Inr um' \<and> map fst um' = map fst um
      \<and> (\<forall>k \<in> fst ` set um. map_of um' k = Some (the (map_of um k) @ hits ps k))"
proof (induction ps arbitrary: um)
  case Nil
  then show ?case by (auto simp: hits_def map_of_eq_None_iff)
next
  case (Cons p ps)
  obtain i b where p: "p = (i, b)" by (cases p)
  with Cons.prems have b: "b \<in> fst ` set um" by auto
  from dict_append_ok [OF b, of i] obtain um1 where
    um1: "dict_append um b i = Inr um1" "map fst um1 = map fst um"
      "map_of um1 = (map_of um)(b \<mapsto> the (map_of um b) @ [i])" by blast
  have keys: "fst ` set um1 = fst ` set um"
    using um1(2) by (metis set_map)
  with Cons.prems have "snd ` set ps \<subseteq> fst ` set um1" by auto
  from Cons.IH [OF this] obtain um' where
    um': "distribute_loop um1 ps = Inr um'" "map fst um' = map fst um1"
      "\<forall>k \<in> fst ` set um1. map_of um' k = Some (the (map_of um1 k) @ hits ps k)" by blast
  have "\<forall>k \<in> fst ` set um. map_of um' k = Some (the (map_of um k) @ hits (p # ps) k)"
    using um'(3) keys um1(3) p by (auto simp: hits_def)
  then show ?case using um1 um' p by simp
qed

lemma hits_enumerate:
  "hits (enumerate n xs) k = filter (\<lambda>i. xs ! (i - n) = k) [n..<n + length xs]"
proof (induction xs arbitrary: n)
  case Nil
  then show ?case by (simp add: hits_def)
next
  case (Cons x xs)
  define us where "us = [Suc n..<Suc n + length xs]"
  have u: "[n..<n + length (x # xs)] = n # us"
    unfolding us_def by (subst upt_rec) simp
  have c: "filter (\<lambda>i. (y # xs) ! (i - n) = k) us = filter (\<lambda>i. xs ! (i - Suc n) = k) us"
    for y
  proof (rule filter_cong)
    fix i assume "i \<in> set us"
    then have "i - n = Suc (i - Suc n)" by (auto simp: us_def)
    then show "((y # xs) ! (i - n) = k) = (xs ! (i - Suc n) = k)" by simp
  qed simp
  have h: "hits (enumerate n (x # xs)) k
      = (if x = k then [n] else []) @ hits (enumerate (Suc n) xs) k"
    by (simp add: hits_def)
  have ih: "hits (enumerate (Suc n) xs) k = filter (\<lambda>i. xs ! (i - Suc n) = k) us"
    unfolding us_def by (rule Cons.IH)
  have "filter (\<lambda>i. (x # xs) ! (i - n) = k) [n..<n + length (x # xs)]
      = (if x = k then [n] else []) @ filter (\<lambda>i. xs ! (i - Suc n) = k) us"
    unfolding u by (simp add: c)
  then show ?case
    unfolding h ih by simp
qed

lemma distribute_ok:
  assumes "0 \<le> n_units" and "\<forall>b \<in> set bmu_idx. 0 \<le> b \<and> b < n_units"
  shows "\<exists>um. distribute bmu_idx n_units = Inr um
      \<and> map fst um = range_py n_units
      \<and> length um = nat n_units
      \<and> (\<forall>k \<in> set (range_py n_units).
            map_of um k = Some (filter (\<lambda>i. bmu_idx ! i = k) [0..<length bmu_idx]))"
proof -
  let ?init = "map (\<lambda>i. (i, [] :: nat list)) (range_py n_units)"
  have keys: "fst ` set ?init = set (range_py n_units)"
    by (force simp: image_iff)
  have "snd ` set (enumerate 0 bmu_idx) \<subseteq> fst ` set ?init"
    unfolding keys set_range_py using assms(2)
    by (auto simp: enumerate_eq_zip dest!: set_zip_rightD)
  from distribute_loop_ok [OF this] obtain um where
    um: "distribute_loop ?init (enumerate 0 bmu_idx) = Inr um" "map fst um = map fst ?init"
      "\<forall>k \<in> fst ` set ?init. map_of um k
           = Some (the (map_of ?init k) @ hits (enumerate 0 bmu_idx) k)" by blast
  have m: "map fst um = range_py n_units"
    using um(2) by (simp add: comp_def)
  have i0: "map_of ?init k = Some []" if "k \<in> set (range_py n_units)" for k
    using that by (simp add: map_of_map_restrict)
  have "\<forall>k \<in> set (range_py n_units).
      map_of um k = Some (filter (\<lambda>i. bmu_idx ! i = k) [0..<length bmu_idx])"
    using um(3) i0 unfolding keys by (simp add: hits_enumerate)
  moreover have "length um = nat n_units"
    using m by (metis length_map length_range_py)
  ultimately show ?thesis
    using um(1) m by (simp add: distribute_def)
qed

text \<open>C7: when every element of \<open>bmu_idx\<close> lies in \<open>[0, n_units)\<close> and
  \<open>n_units \<ge> 0\<close>, \<open>distribute\<close> returns a mapping whose keys are exactly
  \<open>0, ..., n_units - 1\<close>; each key maps to the positions at which it occurs in
  \<open>bmu_idx\<close>, in increasing order, and a key that never occurs maps to the empty list.
  In particular \<open>distribute([0,2,0], 3) = {0: [0,2], 1: [], 2: [1]}\<close>.\<close>

theorem distribute_positions:
  "(0 \<le> n_units \<longrightarrow> (\<forall>b \<in> set bmu_idx. 0 \<le> b \<and> b < n_units) \<longrightarrow>
     (\<exists>um. distribute bmu_idx n_units = Inr um
        \<and> map fst um = range_py n_units
        \<and> length um = nat n_units
        \<and> (\<forall>k \<in> set (range_py n_units).
              map_of um k = Some (filter (\<lambda>i. bmu_idx ! i = k) [0..<length bmu_idx]))
        \<and> (\<forall>k \<in> set (range_py n_units). k \<notin> set bmu_idx \<longrightarrow> map_of um k = Some [])))
   \<and> distribute [0, 2, 0] 3 = Inr [(0, [0, 2]), (1, []), (2, [1])]"
proof (intro conjI impI)
  assume h: "0 \<le> n_units" "\<forall>b \<in> set bmu_idx. 0 \<le> b \<and> b < n_units"
  from distribute_ok [OF h] obtain um where
    um: "distribute bmu_idx n_units = Inr um" "map fst um = range_py n_units"
      "length um = nat n_units"
      "\<forall>k \<in> set (range_py n_units).
          map_of um k = Some (filter (\<lambda>i. bmu_idx ! i = k) [0..<length bmu_idx])"
    by blast
  have "map_of um k = Some []" if "k \<in> set (range_py n_units)" "k \<notin> set bmu_idx" for k
  proof -
    have "filter (\<lambda>i. bmu_idx ! i = k) [0..<length bmu_idx] = []"
      using that(2) by (auto simp: filter_empty_conv)
    then show ?thesis using um(4) that(1) by simp
  qed
  with um show "\<exists>um. distribute bmu_idx n_units = Inr um
        \<and> map fst um = range_py n_units
        \<and> length um = nat n_units
        \<and> (\<forall>k \<in> set (range_py n_units).
              map_of um k = Some (filter (\<lambda>i. bmu_idx ! i = k) [0..<length bmu_idx]))
        \<and> (\<forall>k \<in> set (range_py n_units). k \<notin> set bmu_idx \<longrightarrow> map_of um k = Some [])"
    by blast
next
  show "distribute [0, 2, 0] 3 = Inr [(0, [0, 2]), (1, []), (2, [1])]"
    by code_simp
qed

theorem distribute_positions_witness:
  "(0::int) \<le> 4 \<and> list_all (\<lambda>b. 0 \<le> b \<and> b < 4) [1, 3, 1 :: int]
   \<and> 0 \<in> set (range_py 4) \<and> 0 \<notin> set [1, 3, 1 :: int]
   \<and> distribute [1, 3, 1] 4 = Inr [(0, []), (1, [0, 2]), (2, []), (3, [1])]
   \<and> (\<exists>um. distribute [1, 3, 1] 4 = Inr um \<and> length um = nat 4 \<and> map_of um 0 = Some [])"
proof -
  have h: "(0::int) \<le> 4" "\<forall>b \<in> set [1, 3, 1 :: int]. 0 \<le> b \<and> b < 4"
    by simp_all
  have k: "0 \<in> set (range_py 4)" "0 \<notin> set [1, 3, 1 :: int]"
    by (simp_all add: set_range_py)
  have "\<exists>um. distribute [1, 3, 1] 4 = Inr um \<and> length um = nat 4 \<and> map_of um 0 = Some []"
    using distribute_positions [of 4 "[1, 3, 1]"] h k by blast
  moreover have "distribute [1, 3, 1] 4 = Inr [(0, []), (1, [0, 2]), (2, []), (3, [1])]"
    by code_simp
  ultimately show ?thesis
    using h k by simp
qed

section \<open>Properties of the schedules\<close>

declare drain.simps [simp del]

lemma float_of_int_small:
  "\<bar>n\<bar> < 2 ^ 53 \<Longrightarrow> float_of_int n = Inr (Fin (of_int n))"
  by (simp add: float_of_int_def fl_of_int)

lemma coef_pc_update [simp]: "coef (g\<lparr>g_pc := p\<rparr>) = coef g"
  by (cases "g_kind g"; cases "float_of_int (minus_one (g_step g))") (simp_all add: coef_def)























text \<open>C3, as the code has it: when \<open>step\<close> is not an integer \<open>\<ge> 1\<close>, the call of
  \<open>decrease_linear\<close> or \<open>decrease_expo\<close> itself returns a generator object without
  raising; \<^verbatim>\<open>ValueError\<close> is raised when the generator is first advanced, before any
  value is yielded, so consuming it fails with \<^verbatim>\<open>ValueError\<close>.\<close>

theorem schedule_invalid_step_deferred:
  "\<not> (\<exists>n \<ge> 1. step = PyInt n) \<longrightarrow>
     (\<exists>g. decrease_linear start step stop = Inr g
        \<and> fst (next_gen g) = Raise ValueError \<and> drain g = Inl ValueError)
   \<and> (\<exists>g. decrease_expo np_log np_exp start step stop = Inr g
        \<and> fst (next_gen g) = Raise ValueError \<and> drain g = Inl ValueError)"
proof
  assume inv: "\<not> (\<exists>n \<ge> 1. step = PyInt n)"
  have bad: "lt_one step \<or> \<not> isinstance_int step"
    using inv by (cases step) auto
  have "fst (next_gen g) = Raise ValueError \<and> drain g = Inl ValueError"
    if "g_step g = step" "g_pc g = Created" for g
    using that bad by (subst drain.simps) (auto simp: next_gen_def)
  then show "(\<exists>g. decrease_linear start step stop = Inr g
        \<and> fst (next_gen g) = Raise ValueError \<and> drain g = Inl ValueError)
   \<and> (\<exists>g. decrease_expo np_log np_exp start step stop = Inr g
        \<and> fst (next_gen g) = Raise ValueError \<and> drain g = Inl ValueError)"
    by (simp add: decrease_linear_def decrease_expo_def)
qed

theorem schedule_invalid_step_deferred_witness:
  "\<not> (\<exists>n \<ge> 1. PyFloat (Fin (5 / 2)) = PyInt n)
   \<and> (\<exists>g. decrease_linear (Fin 5) (PyFloat (Fin (5 / 2))) (Fin 1) = Inr g
        \<and> fst (next_gen g) = Raise ValueError \<and> drain g = Inl ValueError)
   \<and> (\<exists>g. decrease_expo id id (Fin 5) (PyFloat (Fin (5 / 2))) (Fin 1) = Inr g
        \<and> fst (next_gen g) = Raise ValueError \<and> drain g = Inl ValueError)"
proof -
  have h: "\<not> (\<exists>n \<ge> 1. PyFloat (Fin (5 / 2)) = PyInt n)" by simp
  with schedule_invalid_step_deferred [of "PyFloat (Fin (5 / 2))" "Fin 5" "Fin 1" id id]
  show ?thesis by blast
qed

text \<open>C3 as stated fails: with \<open>step = 0\<close> or \<open>step = 2.5\<close> the call does not
  raise.\<close>

theorem schedule_invalid_step_counterexample:
  "decrease_linear (Fin 5) (PyInt 0) (Fin 1) \<noteq> Inl ValueError
   \<and> decrease_expo id id (Fin 5) (PyFloat (Fin (5 / 2))) (Fin 1) \<noteq> Inl ValueError"
  by (simp add: decrease_linear_def decrease_expo_def)

section \<open>Properties of the weight initializers\<close>

lemma perfect_square_iff: "perfect_square n \<longleftrightarrow> (\<exists>k. k * k = n)"
proof
  assume "perfect_square n"
  then show "\<exists>k. k * k = n" by (auto simp: perfect_square_def)
next
  assume "\<exists>k. k * k = n"
  then obtain k where k: "k * k = n" by blast
  have "\<bar>k\<bar> * \<bar>k\<bar> = n" using k by (simp add: abs_mult_self_eq)
  moreover have "\<bar>k\<bar> \<le> \<bar>k\<bar> * \<bar>k\<bar>"
  proof (cases "k = 0")
    case True
    then show ?thesis by simp
  next
    case False
    then have "1 \<le> \<bar>k\<bar>" by simp
    then have "\<bar>k\<bar> * 1 \<le> \<bar>k\<bar> * \<bar>k\<bar>"
      by (intro mult_left_mono) simp_all
    then show ?thesis by (simp only: mult_1_right)
  qed
  ultimately have "\<bar>k\<bar> \<in> {0..n}" by auto
  with \<open>\<bar>k\<bar> * \<bar>k\<bar> = n\<close> show "perfect_square n"
    unfolding perfect_square_def by blast
qed











lemma np_sqrt_square:
  assumes "0 \<le> N" and "N * N < 2 ^ 53"
  shows "np_sqrt (N * N) = Inr (Fin (of_int N))"
proof -
  have n: "\<bar>N * N\<bar> < 2 ^ 53" using assms(2) by (simp add: abs_mult)
  have "N \<le> N * N" using assms(1) by (cases "N = 0") (simp_all add: mult_le_cancel_left1)
  then have "\<bar>N\<bar> < 2 ^ 53" using assms by linarith
  then have f: "fl (of_int N) = Fin (of_int N)" by (rule fl_of_int)
  have "sqrt (real_of_int (N * N)) = \<bar>real_of_int N\<bar>"
    by (metis of_int_mult real_sqrt_abs2)
  also have "\<dots> = of_int N" using assms(1) by simp
  finally have q: "sqrt (real_of_int (N * N)) = of_int N" .
  have z: "- (2 ^ 63) \<le> (0::int)" "(2::int) ^ 53 \<le> 2 ^ 64" by simp_all
  have "\<not> N * N < - (2 ^ 63)" using zero_le_square [of N] z(1) by linarith
  moreover have "\<not> 2 ^ 64 \<le> N * N" using assms(2) z(2) by linarith
  ultimately have r: "\<not> (N * N < - (2 ^ 63) \<or> 2 ^ 64 \<le> N * N)" by blast
  have "np_sqrt (N * N) = Inr (fsqrt (fl (of_int (N * N))))"
    unfolding np_sqrt_def using r by (simp only: if_False)
  also have "fl (of_int (N * N)) = Fin (of_int (N * N))" using n by (rule fl_of_int)
  also have "fsqrt (Fin (of_int (N * N))) = fl (sqrt (of_int (N * N)))" by simp
  finally show ?thesis unfolding q f .
qed






lemma np_sqrt_four: "np_sqrt 4 = Inr (Fin 2)"
  using np_sqrt_square [of 2] by simp

lemma sample_stm_seq_random_2x2:
  "sample_stm seq_random (1, 1, 4) data [a, b, c, d]
     = Inr ([[(1 + a mod 9) / ((1 + a mod 9) + (1 + b mod 9)),
              (1 + b mod 9) / ((1 + a mod 9) + (1 + b mod 9)),
              (1 + c mod 9) / ((1 + c mod 9) + (1 + d mod 9)),
              (1 + d mod 9) / ((1 + c mod 9) + (1 + d mod 9))]], [])"
proof -
  have r: "randint seq_random 1 10 (2, 2) [a, b, c, d]
      = ([[1 + a mod 9, 1 + b mod 9], [1 + c mod 9, 1 + d mod 9]], [])"
    by (simp add: seq_random_def randint_seq_def chop_def upt_rec numeral_2_eq_2)
  have f: "fl 2 = Fin 2" using fl_of_int [of 2] by simp
  have n: "nat 2 = 2" by simp
  have chk: "fsub (Fin 2) (fl (of_int 2)) = Fin 0" by (simp add: fsub_def f)
  have i: "py_int (Fin 2) = Inr 2" by simp
  show ?thesis
    unfolding sample_stm_def prod.case np_sqrt_four sum.case i chk Let_def n r
    by (simp add: seq_random_def dirichlet_mean_def hstack_def)
qed








text \<open>C5 fails on the code: the concentration parameters are the rows of one
  \<^verbatim>\<open>randint(1, 10, (N, N))\<close> draw, with nothing added on the diagonal. When the draw
  is \<open>[[1, 9], [9, 1]]\<close>, the self-transition parameters are the smallest of their
  rows, and so are the self-transition entries of the mean sample.\<close>

theorem sample_stm_diagonal_not_reinforced:
  "fst (randint seq_random 1 10 (2, 2) [0, 8, 8, 0]) = [[1, 9], [9, 1]]
   \<and> sample_stm seq_random (1, 1, 4) None [0, 8, 8, 0]
       = Inr ([[1 / 10, 9 / 10, 9 / 10, 1 / 10]], [])"
proof -
  have "randint seq_random 1 10 (2, 2) [0, 8, 8, 0] = ([[1, 9], [9, 1]], [])"
    by (simp add: seq_random_def randint_seq_def chop_def upt_rec numeral_2_eq_2)
  then show ?thesis
    by (simp add: sample_stm_seq_random_2x2)
qed

text \<open>C10: the results of \<open>sample_stm\<close> and \<open>sample_hist\<close> do not depend on
  \<open>data\<close>: with the same collaborators, random state and dimensions, any two values
  of \<open>data\<close> (\<open>None\<close> included) give the same result.\<close>

theorem sample_data_not_read:
  "sample_stm R dims data1 g = sample_stm R dims data2 g
   \<and> sample_hist R dims data1 g = sample_hist R dims data2 g
   \<and> sample_stm R dims None g = sample_stm R dims data2 g
   \<and> sample_hist R dims None g = sample_hist R dims data2 g"
  by (simp add: sample_stm_def sample_hist_def)

section \<open>Properties of the scaler\<close>

lemma valid_indexD:
  assumes "valid_index a idx"
  shows "length idx = length (shape a)" and "k < length (shape a) \<Longrightarrow> idx ! k < shape a ! k"
  using assms by (simp_all add: valid_index_def list_all2_conv_all_nth)

lemma bcast_index_same:
  assumes "length idx = length shp" and "\<forall>k < length shp. idx ! k < shp ! k"
  shows "bcast_index shp idx = idx"
proof (rule nth_equalityI)
  show "length (bcast_index shp idx) = length idx"
    using assms(1) by (simp add: bcast_index_def)
  fix k assume "k < length (bcast_index shp idx)"
  then have k: "k < length shp" "k < length idx"
    using assms(1) by (simp_all add: bcast_index_def)
  then have "idx ! k < shp ! k" using assms(2) by simp
  then show "bcast_index shp idx ! k = idx ! k"
    using k by (auto simp: bcast_index_def)
qed

lemma bcast_index_kept:
  assumes "length idx = length shp" and "\<forall>k < length shp. idx ! k < shp ! k"
  shows "bcast_index (shp[ax := 1]) idx = idx[ax := 0]"
proof (rule nth_equalityI)
  show "length (bcast_index (shp[ax := 1]) idx) = length (idx[ax := 0])"
    using assms(1) by (simp add: bcast_index_def)
  fix k assume "k < length (bcast_index (shp[ax := 1]) idx)"
  then have k: "k < length shp" "k < length idx"
    using assms(1) by (simp_all add: bcast_index_def)
  then have lt: "idx ! k < shp ! k" using assms(2) by simp
  show "bcast_index (shp[ax := 1]) idx ! k = idx[ax := 0] ! k"
  proof (cases "k = ax")
    case True
    then show ?thesis using k by (simp add: bcast_index_def)
  next
    case False
    then show ?thesis using k lt by (auto simp: bcast_index_def)
  qed
qed

lemma slice_along_update [simp]:
  "slice_along a ax (idx[ax := i]) = slice_along a ax idx"
  by (simp add: slice_along_def)

lemma broadcast_shape_same:
  "map2 (\<lambda>n m. if n = Suc 0 then m else n) shp shp = shp"
  by (intro nth_equalityI) auto

lemma broadcast_shape_kept:
  "map2 (\<lambda>n m. if n = Suc 0 then m else n) shp (shp[ax := Suc 0]) = shp"
proof (cases "ax < length shp")
  case True
  then show ?thesis
    by (intro nth_equalityI) (auto simp: nth_list_update)
next
  case False
  then show ?thesis
    by (intro nth_equalityI) auto
qed

lemma reduction_axis_SomeD:
  "reduction_axis axis ndim = Inr (Some ax) \<Longrightarrow> ax < ndim"
  by (auto simp: reduction_axis_def split: if_splits)

lemma valid_index_update:
  assumes "valid_index a idx" and "j < shape a ! ax"
  shows "valid_index a (idx[ax := j])"
  unfolding valid_index_def list_all2_conv_all_nth
proof (intro conjI allI impI)
  show "length (idx[ax := j]) = length (shape a)"
    using valid_indexD(1) [OF assms(1)] by simp
  fix i assume "i < length (idx[ax := j])"
  then have i: "i < length (shape a)" "i < length idx"
    using valid_indexD(1) [OF assms(1)] by simp_all
  show "idx[ax := j] ! i < shape a ! i"
  proof (cases "i = ax")
    case True
    then show ?thesis using i assms(2) by simp
  next
    case False
    then show ?thesis using valid_indexD(2) [OF assms(1) i(1)] by simp
  qed
qed

lemma slice_along_nonempty:
  assumes "reduction_axis axis (length (shape arr)) = Inr (Some ax)" and "valid_index arr idx"
  shows "slice_along arr ax idx \<noteq> []"
proof -
  have "ax < length (shape arr)"
    using assms(1) by (rule reduction_axis_SomeD)
  from valid_indexD(2) [OF assms(2) this] show ?thesis
    by (auto simp: slice_along_def)
qed

lemma scale_elem:
  assumes ax: "reduction_axis axis (length (shape arr)) = Inr (Some ax)"
    and idx: "valid_index arr idx"
    and d: "float_of_int (new_max - new_min) = Inr d"
    and m: "float_of_int new_min = Inr m"
  shows "\<exists>out. scale arr new_min new_max axis = Inr out
      \<and> shape out = shape arr
      \<and> elem out idx
          = fadd (fmul (fdiv (fsub (elem arr idx) (reduce_list np_minimum (slice_along arr ax idx)))
                             (fsub (reduce_list np_maximum (slice_along arr ax idx))
                                   (reduce_list np_minimum (slice_along arr ax idx)))) d) m"
proof -
  let ?shp = "shape arr"
  have axlt: "ax < length ?shp"
    using ax by (rule reduction_axis_SomeD)
  have len: "length idx = length ?shp"
    and lt: "\<forall>k < length ?shp. idx ! k < ?shp ! k"
    using valid_indexD [OF idx] by simp_all
  have n0: "?shp ! ax \<noteq> 0" using lt axlt by auto
  have b1: "bcast_index ?shp idx = idx"
    using len lt by (rule bcast_index_same)
  have b2: "bcast_index (?shp[ax := Suc 0]) idx = idx[ax := 0]"
    using bcast_index_kept [OF len lt, of ax] by simp
  have len0: "length (idx[ax := 0]) = length (?shp[ax := Suc 0])"
    using len by simp
  have lt0: "\<forall>k < length (?shp[ax := Suc 0]). idx[ax := 0] ! k < ?shp[ax := Suc 0] ! k"
    using lt len axlt by (auto simp: nth_list_update)
  have b3: "bcast_index (?shp[ax := Suc 0]) (idx[ax := 0]) = idx[ax := 0]"
    using len0 lt0 by (rule bcast_index_same)
  show ?thesis
    using ax n0 b1 b2 b3 d m
    by (simp add: scale_def broadcast2_def map_array_def Let_def
        broadcast_shape_kept broadcast_shape_same)
qed

lemma fle_trans: "fle x y \<Longrightarrow> fle y z \<Longrightarrow> fle x z"
  by (cases x; cases y; cases z) (auto simp: fle_def)

lemma fle_total: "\<not> is_nan x \<Longrightarrow> \<not> is_nan y \<Longrightarrow> fle x y \<or> fle y x"
  by (cases x; cases y) (auto simp: fle_def)

lemma fle_Fin_not_nan: "fle x (Fin a) \<Longrightarrow> \<not> is_nan x"
  by (cases x) (auto simp: fle_def)

lemma Fin_fle_not_nan: "fle (Fin a) x \<Longrightarrow> \<not> is_nan x"
  by (cases x) (auto simp: fle_def)

lemma fold_maximum_bound:
  "fold (\<lambda>x acc. np_maximum acc x) xs acc = Fin a
     \<Longrightarrow> fle acc (Fin a) \<and> (\<forall>x \<in> set xs. fle x (Fin a))"
proof (induction xs arbitrary: acc)
  case Nil
  then show ?case by (simp add: fle_def)
next
  case (Cons x xs)
  then have ih: "fle (np_maximum acc x) (Fin a)" "\<forall>y \<in> set xs. fle y (Fin a)"
    by simp_all
  have n: "\<not> is_nan (np_maximum acc x)" using ih(1) by (rule fle_Fin_not_nan)
  have "fle acc (Fin a) \<and> fle x (Fin a)"
  proof (cases "fle x acc \<or> is_nan acc")
    case True
    then have e: "np_maximum acc x = acc" by (simp add: np_maximum_def)
    with n True have "fle x acc" by simp
    with ih(1) e show ?thesis by (auto intro: fle_trans)
  next
    case False
    then have e: "np_maximum acc x = x" by (simp add: np_maximum_def)
    with n have "\<not> is_nan x" by simp
    with False fle_total [of acc x] have "fle acc x" by auto
    with ih(1) e show ?thesis by (auto intro: fle_trans)
  qed
  with ih(2) show ?case by simp
qed

lemma fold_minimum_bound:
  "fold (\<lambda>x acc. np_minimum acc x) xs acc = Fin a
     \<Longrightarrow> fle (Fin a) acc \<and> (\<forall>x \<in> set xs. fle (Fin a) x)"
proof (induction xs arbitrary: acc)
  case Nil
  then show ?case by (simp add: fle_def)
next
  case (Cons x xs)
  then have ih: "fle (Fin a) (np_minimum acc x)" "\<forall>y \<in> set xs. fle (Fin a) y"
    by simp_all
  have n: "\<not> is_nan (np_minimum acc x)" using ih(1) by (rule Fin_fle_not_nan)
  have "fle (Fin a) acc \<and> fle (Fin a) x"
  proof (cases "fle acc x \<or> is_nan acc")
    case True
    then have e: "np_minimum acc x = acc" by (simp add: np_minimum_def)
    with n True have "fle acc x" by simp
    with ih(1) e show ?thesis by (auto intro: fle_trans)
  next
    case False
    then have e: "np_minimum acc x = x" by (simp add: np_minimum_def)
    with n have "\<not> is_nan x" by simp
    with False fle_total [of acc x] have "fle x acc" by auto
    with ih(1) e show ?thesis by (auto intro: fle_trans)
  qed
  with ih(2) show ?case by simp
qed

lemma fold_choice_in:
  assumes "\<And>x y. f x y = x \<or> f x y = y"
  shows "fold (\<lambda>x acc. f acc x) xs acc \<in> set (acc # xs)"
proof (induction xs arbitrary: acc)
  case Nil
  then show ?case by simp
next
  case (Cons x xs)
  from Cons [of "f acc x"] assms [of acc x] show ?case by auto
qed

lemma reduce_list_in:
  assumes "\<And>x y. f x y = x \<or> f x y = y" and "xs \<noteq> []"
  shows "reduce_list f xs \<in> set xs"
proof -
  from assms(2) obtain y ys where xs: "xs = y # ys" by (cases xs) auto
  show ?thesis unfolding xs reduce_list_def list.sel using assms(1) by (rule fold_choice_in)
qed

lemma reduce_maximum_bound:
  assumes "xs \<noteq> []" and "reduce_list np_maximum xs = Fin a"
  shows "\<forall>x \<in> set xs. fle x (Fin a)"
proof -
  from assms(1) obtain y ys where xs: "xs = y # ys" by (cases xs) auto
  from fold_maximum_bound [of ys y a] assms(2) show ?thesis
    unfolding xs reduce_list_def by simp
qed

lemma reduce_minimum_bound:
  assumes "xs \<noteq> []" and "reduce_list np_minimum xs = Fin a"
  shows "\<forall>x \<in> set xs. fle (Fin a) x"
proof -
  from assms(1) obtain y ys where xs: "xs = y # ys" by (cases xs) auto
  from fold_minimum_bound [of ys y a] assms(2) show ?thesis
    unfolding xs reduce_list_def by simp
qed

lemma fsub_FinD:
  assumes "fsub x y = Fin r"
  obtains a b where "x = Fin a" and "y = Fin b"
  using assms by (cases x; cases y) (simp_all add: fsub_def)

lemma scale_min_value:
  assumes "\<bar>new_min\<bar> < 2 ^ 53" and "r \<noteq> 0"
  shows "fadd (fmul (fdiv (fsub (Fin b) (Fin b)) (Fin r)) (Fin d)) (Fin (of_int new_min))
       = Fin (of_int new_min)"
  using assms fl_of_int [OF assms(1)] by (simp add: fsub_def)

lemma scale_max_value:
  assumes "\<bar>new_max\<bar> < 2 ^ 53" and "\<bar>new_max - new_min\<bar> < 2 ^ 53" and "r \<noteq> 0"
  shows "fadd (fmul (fdiv (Fin r) (Fin r)) (Fin (of_int (new_max - new_min))))
              (Fin (of_int new_min))
       = Fin (of_int new_max)"
proof -
  have 1: "fl 1 = Fin 1" using fl_of_int [of 1] by simp
  have "fdiv (Fin r) (Fin r) = Fin 1" using assms(3) 1 by simp
  moreover have "fmul (Fin 1) (Fin (of_int (new_max - new_min))) = Fin (of_int (new_max - new_min))"
    using fl_of_int [OF assms(2)] by simp
  moreover have "fadd (Fin (of_int (new_max - new_min))) (Fin (of_int new_min)) = Fin (of_int new_max)"
    using fl_of_int [OF assms(1)] by simp
  ultimately show ?thesis by simp
qed

lemma fl_third: "fl (1 / 3) = Fin (6004799503160661 / 2 ^ 54)"
  by (subst fl_eval [where k = "- 2"]) (simp_all add: pow2_def round_even_def Let_def)

lemma fl_two_thirds: "fl (2 / 3) = Fin (6004799503160661 / 2 ^ 53)"
  by (subst fl_eval [where k = "- 1"]) (simp_all add: pow2_def round_even_def Let_def)

lemma fl_third_exact: "fl (6004799503160661 / 2 ^ 54) = Fin (6004799503160661 / 2 ^ 54)"
  by (subst fl_eval [where k = "- 2"]) (simp_all add: pow2_def round_even_def Let_def)

lemma fl_two_thirds_exact: "fl (6004799503160661 / 2 ^ 53) = Fin (6004799503160661 / 2 ^ 53)"
  by (subst fl_eval [where k = "- 1"]) (simp_all add: pow2_def round_even_def Let_def)

lemma fl_digits: "fl 1 = Fin 1" "fl 2 = Fin 2" "fl 3 = Fin 3" "fl 4 = Fin 4"
  using fl_of_int [of 1] fl_of_int [of 2] fl_of_int [of 3] fl_of_int [of 4] by simp_all

lemma fl_huge: "fl (2 ^ 1023) = Fin (2 ^ 1023)" "fl (- (2 ^ 1023)) = Fin (- (2 ^ 1023))"
  by (subst fl_eval [where k = 1023]; simp add: pow2_def round_even_def Let_def)+

lemma fl_overflow: "fl (2 ^ 1024) = PInf"
  by (subst fl_eval [where k = 1024]) (simp_all add: pow2_def round_even_def Let_def)

lemma np_maximum_choice: "np_maximum x y = x \<or> np_maximum x y = y"
  by (simp add: np_maximum_def)

lemma np_minimum_choice: "np_minimum x y = x \<or> np_minimum x y = y"
  by (simp add: np_minimum_def)

lemma set_slice_along:
  "set (slice_along a ax idx) = (\<lambda>j. elem a (idx[ax := j])) ` {..<shape a ! ax}"
  by (auto simp: slice_along_def)

lemma scale_array1:
  assumes ne: "xs \<noteq> []"
    and d: "float_of_int (new_max - new_min) = Inr d"
    and m: "float_of_int new_min = Inr m"
  shows "\<exists>out. scale (array1 xs) new_min new_max (- 1) = Inr out
      \<and> to_list1 out
          = map (\<lambda>x. fadd (fmul (fdiv (fsub x (reduce_list np_minimum xs))
                                      (fsub (reduce_list np_maximum xs)
                                            (reduce_list np_minimum xs))) d) m) xs"
proof -
  let ?a = "array1 xs"
  let ?F = "\<lambda>x. fadd (fmul (fdiv (fsub x (reduce_list np_minimum xs))
                                      (fsub (reduce_list np_maximum xs)
                                            (reduce_list np_minimum xs))) d) m"
  have ax: "reduction_axis (- 1) (length (shape ?a)) = Inr (Some 0)"
    by (simp add: reduction_axis_def array1_def)
  have sl: "slice_along ?a 0 [j] = xs" for j
    by (simp add: slice_along_def array1_def map_nth)
  have v: "valid_index ?a [j]" if "j < length xs" for j
    using that by (simp add: valid_index_def array1_def)
  have pos: "0 < length xs" using ne by simp
  from scale_elem [OF ax v [OF pos] d m] obtain out where
    out: "scale ?a new_min new_max (- 1) = Inr out" "shape out = shape ?a" by blast
  have e: "elem out [j] = ?F (xs ! j)" if "j < length xs" for j
  proof -
    from scale_elem [OF ax v [OF that] d m] out(1)
    have "elem out [j] = ?F (elem ?a [j])" unfolding sl by auto
    then show ?thesis by (simp add: array1_def)
  qed
  have "to_list1 out = map (\<lambda>i. elem out [i]) [0..<length xs]"
    using out(2) by (simp add: to_list1_def array1_def)
  also have "\<dots> = map (\<lambda>i. ?F (xs ! i)) [0..<length xs]"
    using e by simp
  also have "\<dots> = map ?F (map (\<lambda>i. xs ! i) [0..<length xs])"
    by (simp only: map_map comp_def)
  also have "\<dots> = map ?F xs" by (simp only: map_nth)
  finally show ?thesis using out(1) by blast
qed

text \<open>C8, as the code has it in double arithmetic: for an axis of the array and a
  slice along it whose maximum and minimum have a double difference that is finite
  and not zero, and for \<open>new_min\<close>, \<open>new_max\<close> and \<open>new_max - new_min\<close> below
  \<open>2\<^sup>5\<^sup>3\<close> in absolute value, \<open>scale\<close> returns an array of the same shape in which
  every position holding the slice's minimum becomes exactly \<open>new_min\<close>, every
  position holding its maximum becomes exactly \<open>new_max\<close>, both occur in the slice,
  and every value \<open>x\<close> becomes \<open>(x - min) / (max - min) * (new_max - new_min) + new_min\<close>
  with every operation rounded. \<open>scale([1, 2, 3, 4], 0, 1)\<close> is \<open>0\<close>, the doubles
  nearest to \<open>1/3\<close> and \<open>2/3\<close>, and \<open>1\<close>.\<close>

theorem scale_slice_rounded:
  "(reduction_axis axis (length (shape arr)) = Inr (Some ax) \<longrightarrow> valid_index arr idx \<longrightarrow>
     (let mn = reduce_list np_minimum (slice_along arr ax idx);
          mx = reduce_list np_maximum (slice_along arr ax idx)
      in fsub mx mn = Fin r \<longrightarrow> r \<noteq> 0 \<longrightarrow>
         \<bar>new_min\<bar> < 2 ^ 53 \<longrightarrow> \<bar>new_max\<bar> < 2 ^ 53 \<longrightarrow> \<bar>new_max - new_min\<bar> < 2 ^ 53 \<longrightarrow>
         (\<exists>out. scale arr new_min new_max axis = Inr out \<and> shape out = shape arr
            \<and> elem out idx
                = fadd (fmul (fdiv (fsub (elem arr idx) mn) (fsub mx mn))
                             (Fin (of_int (new_max - new_min))))
                       (Fin (of_int new_min))
            \<and> (\<forall>j < shape arr ! ax.
                   fle mn (elem arr (idx[ax := j])) \<and> fle (elem arr (idx[ax := j])) mx)
            \<and> (\<forall>j < shape arr ! ax.
                   (elem arr (idx[ax := j]) = mn
                      \<longrightarrow> elem out (idx[ax := j]) = Fin (of_int new_min))
                   \<and> (elem arr (idx[ax := j]) = mx
                      \<longrightarrow> elem out (idx[ax := j]) = Fin (of_int new_max)))
            \<and> (\<exists>j < shape arr ! ax. elem arr (idx[ax := j]) = mn)
            \<and> (\<exists>j < shape arr ! ax. elem arr (idx[ax := j]) = mx))))
   \<and> (\<exists>out. scale (array1 [Fin 1, Fin 2, Fin 3, Fin 4]) 0 1 (- 1) = Inr out
         \<and> to_list1 out
             = [Fin 0, Fin (6004799503160661 / 2 ^ 54), Fin (6004799503160661 / 2 ^ 53), Fin 1])"
proof (intro conjI impI)
  assume ax: "reduction_axis axis (length (shape arr)) = Inr (Some ax)"
    and idx: "valid_index arr idx"
  let ?sl = "slice_along arr ax idx"
  let ?mn = "reduce_list np_minimum ?sl" and ?mx = "reduce_list np_maximum ?sl"
  let ?d = "Fin (of_int (new_max - new_min))" and ?m = "Fin (of_int new_min)"
  let ?F = "\<lambda>x. fadd (fmul (fdiv (fsub x ?mn) (fsub ?mx ?mn)) ?d) ?m"
  show "let mn = ?mn; mx = ?mx
      in fsub mx mn = Fin r \<longrightarrow> r \<noteq> 0 \<longrightarrow>
         \<bar>new_min\<bar> < 2 ^ 53 \<longrightarrow> \<bar>new_max\<bar> < 2 ^ 53 \<longrightarrow> \<bar>new_max - new_min\<bar> < 2 ^ 53 \<longrightarrow>
         (\<exists>out. scale arr new_min new_max axis = Inr out \<and> shape out = shape arr
            \<and> elem out idx
                = fadd (fmul (fdiv (fsub (elem arr idx) mn) (fsub mx mn))
                             (Fin (of_int (new_max - new_min))))
                       (Fin (of_int new_min))
            \<and> (\<forall>j < shape arr ! ax.
                   fle mn (elem arr (idx[ax := j])) \<and> fle (elem arr (idx[ax := j])) mx)
            \<and> (\<forall>j < shape arr ! ax.
                   (elem arr (idx[ax := j]) = mn
                      \<longrightarrow> elem out (idx[ax := j]) = Fin (of_int new_min))
                   \<and> (elem arr (idx[ax := j]) = mx
                      \<longrightarrow> elem out (idx[ax := j]) = Fin (of_int new_max)))
            \<and> (\<exists>j < shape arr ! ax. elem arr (idx[ax := j]) = mn)
            \<and> (\<exists>j < shape arr ! ax. elem arr (idx[ax := j]) = mx))"
    unfolding Let_def
  proof (intro impI)
    assume r: "fsub ?mx ?mn = Fin r" and r0: "r \<noteq> 0"
      and b: "\<bar>new_min\<bar> < 2 ^ 53" "\<bar>new_max\<bar> < 2 ^ 53" "\<bar>new_max - new_min\<bar> < 2 ^ 53"
    from r obtain a c where mx: "?mx = Fin a" and mn: "?mn = Fin c" by (rule fsub_FinD)
    have d: "float_of_int (new_max - new_min) = Inr ?d" using b(3) by (rule float_of_int_small)
    have m: "float_of_int new_min = Inr ?m" using b(1) by (rule float_of_int_small)
    from scale_elem [OF ax idx d m] obtain out where
      out: "scale arr new_min new_max axis = Inr out" "shape out = shape arr"
        "elem out idx = ?F (elem arr idx)"
      by blast
    have at: "elem out (idx[ax := j]) = ?F (elem arr (idx[ax := j]))"
      if "j < shape arr ! ax" for j
    proof -
      from scale_elem [OF ax valid_index_update [OF idx that] d m] out(1)
      show ?thesis by auto
    qed
    have ne: "?sl \<noteq> []" using ax idx by (rule slice_along_nonempty)
    have mem: "elem arr (idx[ax := j]) \<in> set ?sl" if "j < shape arr ! ax" for j
      using that unfolding set_slice_along by blast
    have bounds: "\<forall>j < shape arr ! ax.
        fle ?mn (elem arr (idx[ax := j])) \<and> fle (elem arr (idx[ax := j])) ?mx"
      using reduce_minimum_bound [OF ne mn] reduce_maximum_bound [OF ne mx] mem
      unfolding mn mx by blast
    have Fmn: "?F ?mn = ?m"
      unfolding r unfolding mn using b(1) r0 by (rule scale_min_value)
    have Fmx: "?F ?mx = Fin (of_int new_max)"
      unfolding r using b(2,3) r0 by (rule scale_max_value)
    have ends: "\<forall>j < shape arr ! ax.
        (elem arr (idx[ax := j]) = ?mn \<longrightarrow> elem out (idx[ax := j]) = ?m)
        \<and> (elem arr (idx[ax := j]) = ?mx \<longrightarrow> elem out (idx[ax := j]) = Fin (of_int new_max))"
    proof (intro allI impI conjI)
      fix j assume j: "j < shape arr ! ax"
      { assume "elem arr (idx[ax := j]) = ?mn"
        then show "elem out (idx[ax := j]) = ?m"
          unfolding at [OF j] using Fmn by simp }
      { assume "elem arr (idx[ax := j]) = ?mx"
        then show "elem out (idx[ax := j]) = Fin (of_int new_max)"
          unfolding at [OF j] using Fmx by simp }
    qed
    have "?mn \<in> set ?sl" using np_minimum_choice ne by (rule reduce_list_in)
    then have e1: "\<exists>j < shape arr ! ax. elem arr (idx[ax := j]) = ?mn"
      unfolding set_slice_along by auto
    have "?mx \<in> set ?sl" using np_maximum_choice ne by (rule reduce_list_in)
    then have e2: "\<exists>j < shape arr ! ax. elem arr (idx[ax := j]) = ?mx"
      unfolding set_slice_along by auto
    show "\<exists>out. scale arr new_min new_max axis = Inr out \<and> shape out = shape arr
            \<and> elem out idx = ?F (elem arr idx)
            \<and> (\<forall>j < shape arr ! ax.
                   fle ?mn (elem arr (idx[ax := j])) \<and> fle (elem arr (idx[ax := j])) ?mx)
            \<and> (\<forall>j < shape arr ! ax.
                   (elem arr (idx[ax := j]) = ?mn \<longrightarrow> elem out (idx[ax := j]) = ?m)
                   \<and> (elem arr (idx[ax := j]) = ?mx
                      \<longrightarrow> elem out (idx[ax := j]) = Fin (of_int new_max)))
            \<and> (\<exists>j < shape arr ! ax. elem arr (idx[ax := j]) = ?mn)
            \<and> (\<exists>j < shape arr ! ax. elem arr (idx[ax := j]) = ?mx)"
      using out bounds ends e1 e2 by blast
  qed
next
  have d: "float_of_int (1 - 0) = Inr (Fin 1)" and m: "float_of_int 0 = Inr (Fin 0)"
    using float_of_int_small [of 1] float_of_int_small [of 0] by simp_all
  have mx: "reduce_list np_maximum [Fin 1, Fin 2, Fin 3, Fin 4] = Fin 4"
    and mn: "reduce_list np_minimum [Fin 1, Fin 2, Fin 3, Fin 4] = Fin 1"
    by (simp_all add: reduce_list_def np_maximum_def np_minimum_def fle_def)
  from scale_array1 [of "[Fin 1, Fin 2, Fin 3, Fin 4]" 1 0, OF _ d m]
  show "\<exists>out. scale (array1 [Fin 1, Fin 2, Fin 3, Fin 4]) 0 1 (- 1) = Inr out
         \<and> to_list1 out
             = [Fin 0, Fin (6004799503160661 / 2 ^ 54), Fin (6004799503160661 / 2 ^ 53), Fin 1]"
    unfolding mx mn
    by (simp add: fsub_def fl_digits fl_third [simplified] fl_two_thirds [simplified]
        fl_third_exact [simplified] fl_two_thirds_exact [simplified])
qed

theorem scale_slice_rounded_witness:
  "reduction_axis (- 1) (length (shape (array1 [Fin 1, Fin 2, Fin 3, Fin 4]))) = Inr (Some 0)
   \<and> valid_index (array1 [Fin 1, Fin 2, Fin 3, Fin 4]) [1]
   \<and> fsub (reduce_list np_maximum (slice_along (array1 [Fin 1, Fin 2, Fin 3, Fin 4]) 0 [1]))
           (reduce_list np_minimum (slice_along (array1 [Fin 1, Fin 2, Fin 3, Fin 4]) 0 [1]))
        = Fin 3
   \<and> (3::real) \<noteq> 0 \<and> \<bar>0::int\<bar> < 2 ^ 53 \<and> \<bar>1::int\<bar> < 2 ^ 53 \<and> \<bar>1 - 0::int\<bar> < 2 ^ 53
   \<and> (\<exists>out. scale (array1 [Fin 1, Fin 2, Fin 3, Fin 4]) 0 1 (- 1) = Inr out
          \<and> shape out = [4]
          \<and> elem out [0] = Fin 0
          \<and> elem out [1] = Fin (6004799503160661 / 2 ^ 54)
          \<and> elem out [3] = Fin 1)"
proof -
  let ?a = "array1 [Fin 1, Fin 2, Fin 3, Fin 4]"
  have sl: "slice_along ?a 0 [1] = [Fin 1, Fin 2, Fin 3, Fin 4]"
    by (simp add: slice_along_def array1_def upt_rec)
  have mx: "reduce_list np_maximum [Fin 1, Fin 2, Fin 3, Fin 4] = Fin 4"
    and mn: "reduce_list np_minimum [Fin 1, Fin 2, Fin 3, Fin 4] = Fin 1"
    by (simp_all add: reduce_list_def np_maximum_def np_minimum_def fle_def)
  have h1: "reduction_axis (- 1) (length (shape ?a)) = Inr (Some 0)"
    by (simp add: reduction_axis_def array1_def)
  have h2: "valid_index ?a [1]" by (simp add: valid_index_def array1_def)
  have h3: "fsub (reduce_list np_maximum (slice_along ?a 0 [1]))
                 (reduce_list np_minimum (slice_along ?a 0 [1])) = Fin 3"
    unfolding sl mx mn by (simp add: fsub_def fl_digits)
  have h4: "(3::real) \<noteq> 0" by simp
  have h5: "\<bar>0::int\<bar> < 2 ^ 53" "\<bar>1::int\<bar> < 2 ^ 53" "\<bar>1 - 0::int\<bar> < 2 ^ 53" by simp_all
  from scale_slice_rounded [where axis = "- 1" and arr = ?a and ax = 0 and idx = "[1]"
      and r = 3 and new_min = 0 and new_max = 1, THEN conjunct1, unfolded Let_def]
    h1 h2 h3 h4 h5
  obtain out where
    out: "scale ?a 0 1 (- 1) = Inr out" "shape out = shape ?a"
      "elem out [1]
         = fadd (fmul (fdiv (fsub (elem ?a [1]) (reduce_list np_minimum (slice_along ?a 0 [1])))
                            (fsub (reduce_list np_maximum (slice_along ?a 0 [1]))
                                  (reduce_list np_minimum (slice_along ?a 0 [1]))))
                      (Fin (of_int (1 - 0)))) (Fin (of_int 0))"
      "\<forall>j < shape ?a ! 0.
          (elem ?a ([1][0 := j]) = reduce_list np_minimum (slice_along ?a 0 [1])
              \<longrightarrow> elem out ([1][0 := j]) = Fin (of_int 0))
          \<and> (elem ?a ([1][0 := j]) = reduce_list np_maximum (slice_along ?a 0 [1])
              \<longrightarrow> elem out ([1][0 := j]) = Fin (of_int 1))"
    by blast
  have s: "shape out = [4]" using out(2) by (simp add: array1_def)
  have j: "(0::nat) < shape ?a ! 0" "(3::nat) < shape ?a ! 0" by (simp_all add: array1_def)
  have e0: "elem out [0] = Fin 0"
    using out(4) [rule_format, OF j(1)] unfolding sl mx mn by (simp add: array1_def)
  have e3: "elem out [3] = Fin 1"
    using out(4) [rule_format, OF j(2)] unfolding sl mx mn by (simp add: array1_def)
  have e1: "elem out [1] = Fin (6004799503160661 / 2 ^ 54)"
    unfolding out(3) sl mx mn
    by (simp add: array1_def fsub_def fl_digits fl_third [simplified] fl_third_exact [simplified])
  from h1 h2 h3 h4 h5 out(1) s e0 e1 e3 show ?thesis by blast
qed

text \<open>C8 as stated fails in double arithmetic: in the slice \<open>[-2\<^sup>1\<^sup>0\<^sup>2\<^sup>3, 2\<^sup>1\<^sup>0\<^sup>2\<^sup>3]\<close> the
  maximum is strictly greater than the minimum, but their difference overflows to
  infinity, so the maximum is mapped to \<open>inf / inf\<close>, which is NaN, not to
  \<open>new_max\<close>.\<close>

theorem scale_overflow_counterexample:
  "is_double (Fin (- (2 ^ 1023))) \<and> is_double (Fin (2 ^ 1023))
   \<and> flt (Fin (- (2 ^ 1023))) (Fin (2 ^ 1023))
   \<and> (\<exists>out. scale (array1 [Fin (- (2 ^ 1023)), Fin (2 ^ 1023)]) 0 1 (- 1) = Inr out
          \<and> to_list1 out = [Fin 0, NaN])"
proof -
  have d: "float_of_int (1 - 0) = Inr (Fin 1)" and m: "float_of_int 0 = Inr (Fin 0)"
    using float_of_int_small [of 1] float_of_int_small [of 0] by simp_all
  have mx: "reduce_list np_maximum [Fin (- (2 ^ 1023)), Fin (2 ^ 1023)] = Fin (2 ^ 1023)"
    and mn: "reduce_list np_minimum [Fin (- (2 ^ 1023)), Fin (2 ^ 1023)] = Fin (- (2 ^ 1023))"
    by (simp_all add: reduce_list_def np_maximum_def np_minimum_def fle_def)
  have r: "fsub (Fin (2 ^ 1023)) (Fin (- (2 ^ 1023))) = PInf"
    using fl_overflow by (simp add: fsub_def)
  have z: "fsub (Fin (- (2 ^ 1023))) (Fin (- (2 ^ 1023))) = Fin 0"
    by (simp add: fsub_def)
  from scale_array1 [of "[Fin (- (2 ^ 1023)), Fin (2 ^ 1023)]" 1 0, OF _ d m]
  have "\<exists>out. scale (array1 [Fin (- (2 ^ 1023)), Fin (2 ^ 1023)]) 0 1 (- 1) = Inr out
          \<and> to_list1 out = [Fin 0, NaN]"
    unfolding mx mn list.map r z by simp
  moreover have "is_double (Fin (- (2 ^ 1023)))" "is_double (Fin (2 ^ 1023))"
    using fl_huge by simp_all
  moreover have "flt (Fin (- (2 ^ 1023))) (Fin (2 ^ 1023))" by simp
  ultimately show ?thesis by blast
qed

end
